theory Spec2Isabelle
  imports Complex_Main "HOL-Library.AList"
begin

section \<open>Python values\<close>

text \<open>
  The orchestrator of \<^verbatim>\<open>pro_orchestrator.py\<close> works on JSON-like Python values: step
  specs, payloads and agent results are dicts whose entries are dynamically typed. The
  value universe modelled here is \<^verbatim>\<open>None\<close>, \<^verbatim>\<open>bool\<close>, \<^verbatim>\<open>int\<close> (unbounded), \<^verbatim>\<open>str\<close>
  (ASCII text), \<^verbatim>\<open>list\<close> and \<^verbatim>\<open>dict\<close>. Floats, tuples and sets are outside of it.

  A dict is an association list in insertion order. Its keys are the hashable values of
  the universe; \<^verbatim>\<open>True\<close> and \<^verbatim>\<open>False\<close> are the keys \<^verbatim>\<open>1\<close> and \<^verbatim>\<open>0\<close>, as Python's
  hashing and equality have it.
\<close>

datatype pykey = KNone | KInt int | KStr string

datatype pyval =
    PNone
  | PBool bool
  | PInt int
  | PStr string
  | PList "pyval list"
  | PDict "(pykey \<times> pyval) list"

type_synonym pydict = "(pykey \<times> pyval) list"

datatype pyexc =
    AttributeError | TypeError | ValueError | IndexError | OverflowError | TimeoutError
  | BaseException

text \<open>Truthiness, as \<^verbatim>\<open>if x:\<close>, \<^verbatim>\<open>not x\<close> and \<^verbatim>\<open>x or y\<close> test it.\<close>

fun truthy :: "pyval \<Rightarrow> bool" where
  "truthy PNone = False"
| "truthy (PBool b) = b"
| "truthy (PInt i) = (i \<noteq> 0)"
| "truthy (PStr s) = (s \<noteq> [])"
| "truthy (PList xs) = (xs \<noteq> [])"
| "truthy (PDict d) = (d \<noteq> [])"

definition py_or :: "pyval \<Rightarrow> pyval \<Rightarrow> pyval" where
  "py_or a b = (if truthy a then a else b)"

text \<open>\<^verbatim>\<open>d.get(k)\<close> and \<^verbatim>\<open>d.get(k, default)\<close> for a string key.\<close>

definition dict_get :: "pydict \<Rightarrow> string \<Rightarrow> pyval" where
  "dict_get d k = (case map_of d (KStr k) of None \<Rightarrow> PNone | Some v \<Rightarrow> v)"

definition dict_get_default :: "pydict \<Rightarrow> string \<Rightarrow> pyval \<Rightarrow> pyval" where
  "dict_get_default d k dflt = (case map_of d (KStr k) of None \<Rightarrow> dflt | Some v \<Rightarrow> v)"

text \<open>\<^verbatim>\<open>d[k] = v\<close>: an existing key keeps its place, a new one goes last.\<close>

definition dict_set :: "pydict \<Rightarrow> pykey \<Rightarrow> pyval \<Rightarrow> pydict" where
  "dict_set d k v = AList.update k v d"

text \<open>\<^verbatim>\<open>xs[i]\<close> on a list: a negative index counts from the end, anything else out of
  range raises \<^verbatim>\<open>IndexError\<close>.\<close>

definition py_index :: "'a list \<Rightarrow> int \<Rightarrow> pyexc + 'a" where
  "py_index xs i =
     (let n = int (length xs) in
      if 0 \<le> i \<and> i < n then Inr (xs ! nat i)
      else if i < 0 \<and> - n \<le> i then Inr (xs ! nat (n + i))
      else Inl IndexError)"

subsection \<open>Strings\<close>

definition startswith :: "string \<Rightarrow> string \<Rightarrow> bool" where
  "startswith s p = (take (length p) s = p)"

text \<open>
  \<^verbatim>\<open>s.split(sep)\<close> for a one-character separator: the text before the first separator,
  then the split of what follows it; never the empty list.
\<close>

function split_on :: "char \<Rightarrow> string \<Rightarrow> string list" where
  "split_on c s =
     (case dropWhile (\<lambda>x. x \<noteq> c) s of
        [] \<Rightarrow> [takeWhile (\<lambda>x. x \<noteq> c) s]
      | _ # rest \<Rightarrow> takeWhile (\<lambda>x. x \<noteq> c) s # split_on c rest)"
  by pat_completeness auto
termination
proof (relation "measure (\<lambda>(c, s). length s)")
  show "wf (measure (\<lambda>(c :: char, s :: string). length s))" by simp
next
  fix c :: char and s :: string and x rest
  assume "dropWhile (\<lambda>x. x \<noteq> c) s = x # rest"
  then have "Suc (length rest) = length (dropWhile (\<lambda>x. x \<noteq> c) s)" by simp
  also have "\<dots> \<le> length s" by (rule length_dropWhile_le)
  finally show "((c, rest), (c, s)) \<in> measure (\<lambda>(c, s). length s)" by simp
qed

declare split_on.simps [simp del]

text \<open>
  \<^verbatim>\<open>int(s)\<close> for a string, base 10: surrounding whitespace (tab, line feed, vertical
  tab, form feed, carriage return, space) is dropped, one sign is allowed, and the
  digits may be grouped by single underscores. Everything else raises \<^verbatim>\<open>ValueError\<close>.
  (CPython's limit on the number of digits converted is not modelled.)
\<close>

definition is_space :: "char \<Rightarrow> bool" where
  "is_space c = (of_char c \<in> {9, 10, 11, 12, 13, 32 :: nat})"

definition is_digit :: "char \<Rightarrow> bool" where
  "is_digit c = (48 \<le> (of_char c :: nat) \<and> (of_char c :: nat) \<le> 57)"

definition digit_val :: "char \<Rightarrow> nat" where
  "digit_val c = of_char c - 48"

definition strip :: "string \<Rightarrow> string" where
  "strip s = rev (dropWhile is_space (rev (dropWhile is_space s)))"

fun parse_digits :: "nat \<Rightarrow> string \<Rightarrow> nat option" where
  "parse_digits acc [] = Some acc"
| "parse_digits acc [c] = (if is_digit c then Some (10 * acc + digit_val c) else None)"
| "parse_digits acc (c # d # cs) =
     (if is_digit c then parse_digits (10 * acc + digit_val c) (d # cs)
      else if c = CHR ''_'' \<and> is_digit d then parse_digits acc (d # cs)
      else None)"

definition parse_nat :: "string \<Rightarrow> nat option" where
  "parse_nat s = (case s of [] \<Rightarrow> None | c # _ \<Rightarrow> if is_digit c then parse_digits 0 s else None)"

definition int_of_str :: "string \<Rightarrow> pyexc + int" where
  "int_of_str s =
     (case strip s of
        [] \<Rightarrow> Inl ValueError
      | c # cs \<Rightarrow>
          if c = CHR ''-'' then
            (case parse_nat cs of None \<Rightarrow> Inl ValueError | Some n \<Rightarrow> Inr (- int n))
          else if c = CHR ''+'' then
            (case parse_nat cs of None \<Rightarrow> Inl ValueError | Some n \<Rightarrow> Inr (int n))
          else
            (case parse_nat (c # cs) of None \<Rightarrow> Inl ValueError | Some n \<Rightarrow> Inr (int n)))"

text \<open>\<^verbatim>\<open>int(x)\<close> for a value of the universe.\<close>

fun py_int :: "pyval \<Rightarrow> pyexc + int" where
  "py_int (PInt i) = Inr i"
| "py_int (PBool b) = Inr (if b then 1 else 0)"
| "py_int (PStr s) = int_of_str s"
| "py_int PNone = Inl TypeError"
| "py_int (PList xs) = Inl TypeError"
| "py_int (PDict d) = Inl TypeError"

text \<open>\<^verbatim>\<open>str(n)\<close> for a natural number and an integer, in decimal.\<close>

fun str_of_nat :: "nat \<Rightarrow> string" where
  "str_of_nat n =
     (if n < 10 then [char_of (48 + n)]
      else str_of_nat (n div 10) @ [char_of (48 + n mod 10)])"

definition str_of_int :: "int \<Rightarrow> string" where
  "str_of_int i = (if i < 0 then CHR ''-'' # str_of_nat (nat (- i)) else str_of_nat (nat i))"

subsection \<open>The dict constructor\<close>

text \<open>
  \<^verbatim>\<open>dict(x)\<close>: a dict is copied; any other iterable must yield two-element iterables
  \<^verbatim>\<open>(key, value)\<close> with a hashable key. A list is iterated by its elements, a string by
  its characters and a dict by its keys.
\<close>

fun key_of :: "pyval \<Rightarrow> pyexc + pykey" where
  "key_of PNone = Inr KNone"
| "key_of (PBool b) = Inr (KInt (if b then 1 else 0))"
| "key_of (PInt i) = Inr (KInt i)"
| "key_of (PStr s) = Inr (KStr s)"
| "key_of (PList xs) = Inl TypeError"
| "key_of (PDict d) = Inl TypeError"

fun val_of_key :: "pykey \<Rightarrow> pyval" where
  "val_of_key KNone = PNone"
| "val_of_key (KInt i) = PInt i"
| "val_of_key (KStr s) = PStr s"

fun pair_of :: "pyval \<Rightarrow> pyexc + (pykey \<times> pyval)" where
  "pair_of (PList [k, v]) = (case key_of k of Inl e \<Rightarrow> Inl e | Inr k' \<Rightarrow> Inr (k', v))"
| "pair_of (PList xs) = Inl ValueError"
| "pair_of (PStr [a, b]) = Inr (KStr [a], PStr [b])"
| "pair_of (PStr s) = Inl ValueError"
| "pair_of (PDict [(k1, v1), (k2, v2)]) = Inr (k1, val_of_key k2)"
| "pair_of (PDict d) = Inl ValueError"
| "pair_of PNone = Inl TypeError"
| "pair_of (PBool b) = Inl TypeError"
| "pair_of (PInt i) = Inl TypeError"

fun dict_of_pairs :: "pydict \<Rightarrow> pyval list \<Rightarrow> pyexc + pydict" where
  "dict_of_pairs acc [] = Inr acc"
| "dict_of_pairs acc (x # xs) =
     (case pair_of x of Inl e \<Rightarrow> Inl e | Inr (k, v) \<Rightarrow> dict_of_pairs (dict_set acc k v) xs)"

fun py_dict :: "pyval \<Rightarrow> pyexc + pydict" where
  "py_dict (PDict d) = Inr d"
| "py_dict (PList xs) = dict_of_pairs [] xs"
| "py_dict (PStr s) = dict_of_pairs [] (map (\<lambda>c. PStr [c]) s)"
| "py_dict PNone = Inl TypeError"
| "py_dict (PBool b) = Inl TypeError"
| "py_dict (PInt i) = Inl TypeError"

section \<open>Jobs\<close>

text \<open>
  The job dict that \<^verbatim>\<open>start_workflow\<close> builds has a fixed set of keys, so it is a
  record. Log messages are kept as their format and its arguments (the values the
  f-string renders), not as rendered text. Wall-clock readings (\<^verbatim>\<open>ts\<close>,
  \<^verbatim>\<open>ts_start\<close>, \<^verbatim>\<open>ts_end\<close>, \<^verbatim>\<open>duration\<close>, \<^verbatim>\<open>submitted_at\<close>, \<^verbatim>\<open>finished_at\<close>) are
  left out. The fields of a history entry carry the prefix \<open>e_\<close>, and the job's
  \<^verbatim>\<open>id\<close> is \<open>job_id\<close>.
\<close>

datatype message =
    Starting pyval pyval int
  | Finished pyval int pyval
  | AttemptFailed pyval int pyval
  | WorkflowFailed nat pyval
  | WorkflowCompleted

record log_entry =
  level :: string
  msg :: message

record step_entry =
  e_name :: pyval
  e_agent :: pyval
  e_attempt :: int
  e_result :: pyval

record job =
  job_id :: string
  status :: string
  payload :: pydict
  logs :: "log_entry list"
  agent_history :: "step_entry list"
  result :: "pyval list"

section \<open>Input resolution\<close>

text \<open>
  The loop of \<^verbatim>\<open>_resolve_input\<close> over the fields after \<^verbatim>\<open>data\<close>: a dict is read with
  \<^verbatim>\<open>get\<close>, anything else becomes \<^verbatim>\<open>None\<close>.
\<close>

fun walk :: "pyval \<Rightarrow> string list \<Rightarrow> pyval" where
  "walk v [] = v"
| "walk v (p # ps) = walk (case v of PDict d \<Rightarrow> dict_get d p | _ \<Rightarrow> PNone) ps"

text \<open>
  The body of the \<^verbatim>\<open>try\<close> block. \<open>Inr (Some v)\<close>: the value to store under
  \<^verbatim>\<open>_from_previous\<close>; \<open>Inr None\<close>: the block falls through; \<open>Inl e\<close>: it raises.
\<close>

definition resolve_path :: "pyval \<Rightarrow> job \<Rightarrow> pyexc + pyval option" where
  "resolve_path input_path j =
     (case input_path of
        PStr s \<Rightarrow>
          if startswith s ''previous.'' then
            (let parts = split_on CHR ''.'' s in
             if length parts \<ge> 5 \<and> parts ! 1 = ''steps'' \<and> parts ! 3 = ''data'' then
               (case int_of_str (parts ! 2) of
                  Inl e \<Rightarrow> Inl e
                | Inr idx \<Rightarrow>
                    (let rest = drop 4 parts in
                     case (if idx < int (length (result j)) then py_index (result j) idx
                           else Inr PNone) of
                       Inl e \<Rightarrow> Inl e
                     | Inr prev_result \<Rightarrow>
                         if truthy prev_result then
                           (case prev_result of
                              PDict d \<Rightarrow> Inr (Some (walk (py_or (dict_get d ''data'') (PDict [])) rest))
                            | _ \<Rightarrow> Inl AttributeError)
                         else Inr None))
             else Inr None)
          else Inr None
      | _ \<Rightarrow> Inl AttributeError)"

definition resolve_input :: "pydict \<Rightarrow> job \<Rightarrow> pyexc + pydict" where
  "resolve_input step j =
     (case py_dict (py_or (dict_get step ''input'') (PDict [])) of
        Inl e \<Rightarrow> Inl e
      | Inr base \<Rightarrow>
          (let input_path = dict_get step ''input_path'' in
           if \<not> truthy input_path then Inr base
           else
             (case resolve_path input_path j of
                Inl e \<Rightarrow> Inr base
              | Inr None \<Rightarrow> Inr base
              | Inr (Some v) \<Rightarrow> Inr (dict_set base (KStr ''_from_previous'') v))))"

section \<open>Agents and the world outside the orchestrator\<close>

text \<open>
  An agent is an object with its own state; the orchestrator only looks for the
  attributes \<^verbatim>\<open>arun\<close> and \<^verbatim>\<open>run\<close> and calls one of them. A method says whether it is a
  coroutine function (\<^verbatim>\<open>async def\<close>) and how it answers: the answer may depend on the
  payload and on the number of agent calls made before it, which stands for everything
  the agents remember.

  An answer arrives after some seconds or never. It is
  \<^item> a returned value;
  \<^item> an exception derived from \<^verbatim>\<open>Exception\<close>, other than \<^verbatim>\<open>StopIteration\<close>, with what
    \<^verbatim>\<open>str(e)\<close> gives (the text, or the exception that its \<^verbatim>\<open>__str__\<close> raises) and the
    text of its traceback;
  \<^item> a \<^verbatim>\<open>StopIteration\<close>, with the text of the traceback;
  \<^item> or a \<^verbatim>\<open>BaseException\<close> that \<^verbatim>\<open>except Exception\<close> does not catch
    (\<^verbatim>\<open>KeyboardInterrupt\<close>, \<^verbatim>\<open>SystemExit\<close>, \<^verbatim>\<open>CancelledError\<close>).

  When \<^verbatim>\<open>asyncio.wait_for\<close> reaches its deadline it cancels what it waits for. The
  future of a plain function run in the executor is always cancelled (the thread runs
  on, unseen). A coroutine is cut off only if it gives way: at the deadline it is
  suspended at an \<^verbatim>\<open>await\<close> and lets the \<^verbatim>\<open>CancelledError\<close> through. One that blocks the
  event loop, or catches the cancellation, is waited for until it answers.

  The behaviour of \<^verbatim>\<open>asyncio\<close> follows CPython 3.11.
\<close>

datatype reply = Returns pyval | Throws "pyexc + string" string | Stops string | Aborts

datatype invocation = After rat reply | Never

record entry_point =
  is_coroutine :: bool
  behave :: "nat \<Rightarrow> pydict \<Rightarrow> invocation"
  gives_way :: "nat \<Rightarrow> pydict \<Rightarrow> bool"

record agent_obj =
  arun :: "entry_point option"
  run :: "entry_point option"

text \<open>
  What a coroutine of the orchestrator does: it returns, raises, or never finishes
  (it awaits an agent that never answers).
\<close>

datatype 'a outcome = Return 'a | Raise pyexc | Hang

text \<open>
  The state the coroutines change: the job dict they were handed, the backoff sleeps
  performed so far (in seconds, oldest first) and the number of agent calls made.
\<close>

record world =
  job :: job
  sleeps :: "rat list"
  calls :: nat

definition add_log :: "world \<Rightarrow> string \<Rightarrow> message \<Rightarrow> world" where
  "add_log w lv m = w\<lparr>job := (job w)\<lparr>logs := logs (job w) @ [\<lparr>level = lv, msg = m\<rparr>]\<rparr>\<rparr>"

definition add_history :: "world \<Rightarrow> step_entry \<Rightarrow> world" where
  "add_history w e = w\<lparr>job := (job w)\<lparr>agent_history := agent_history (job w) @ [e]\<rparr>\<rparr>"

definition add_result :: "world \<Rightarrow> pyval \<Rightarrow> world" where
  "add_result w r = w\<lparr>job := (job w)\<lparr>result := result (job w) @ [r]\<rparr>\<rparr>"

definition set_status :: "world \<Rightarrow> string \<Rightarrow> world" where
  "set_status w s = w\<lparr>job := (job w)\<lparr>status := s\<rparr>\<rparr>"

definition sleep :: "world \<Rightarrow> rat \<Rightarrow> world" where
  "sleep w d = w\<lparr>sleeps := sleeps w @ [d]\<rparr>"

section \<open>Calling an agent\<close>

definition not_registered :: "string \<Rightarrow> pyval" where
  "not_registered shown =
     PDict [(KStr ''status'', PStr ''failed''),
            (KStr ''error'', PStr (''agent '' @ [CHR 0x27] @ shown @ [CHR 0x27] @ '' not registered''))]"

definition no_method :: pyval where
  "no_method =
     PDict [(KStr ''status'', PStr ''failed''),
            (KStr ''error'', PStr ''agent has no run/arun method'')]"

definition timed_out :: pyval where
  "timed_out = PDict [(KStr ''status'', PStr ''failed''), (KStr ''error'', PStr ''timeout'')]"

text \<open>
  The inner coroutine \<^verbatim>\<open>_invoke\<close>: the dispatch over the agent's attributes, then the
  \<^verbatim>\<open>try\<close>/\<^verbatim>\<open>except Exception\<close> around the call.
\<close>

definition dispatch :: "agent_obj \<Rightarrow> entry_point option" where
  "dispatch a =
     (if (case arun a of Some m \<Rightarrow> is_coroutine m | None \<Rightarrow> False) then arun a
      else if (case run a of Some m \<Rightarrow> is_coroutine m | None \<Rightarrow> False) then run a
      else if run a \<noteq> None then run a
      else None)"

text \<open>
  \<^verbatim>\<open>_invoke\<close> up to the call of the entry point: whether the call is awaited as a
  coroutine (or runs in the executor), whether it gives way to a cancellation, and how
  it answers. An agent with no entry point is answered for at once.
\<close>

definition invoke :: "agent_obj \<Rightarrow> pydict \<Rightarrow> world \<Rightarrow> (bool \<times> bool \<times> invocation) \<times> world" where
  "invoke a p w =
     (case dispatch a of
        None \<Rightarrow> ((True, True, After 0 (Returns no_method)), w)
      | Some m \<Rightarrow>
          ((is_coroutine m, gives_way m (calls w) p, behave m (calls w) p),
           w\<lparr>calls := Suc (calls w)\<rparr>))"

text \<open>
  What \<^verbatim>\<open>_invoke\<close> makes of the answer. \<^verbatim>\<open>except Exception\<close> builds the failed result
  from \<^verbatim>\<open>str(e)\<close>; when \<^verbatim>\<open>__str__\<close> raises, that exception leaves the handler. A
  \<^verbatim>\<open>StopIteration\<close> raised in a coroutine reaches \<^verbatim>\<open>_invoke\<close> as a \<^verbatim>\<open>RuntimeError\<close>; raised
  by a plain function in the executor it cannot be stored in the future that
  \<^verbatim>\<open>_invoke\<close> awaits, which then never completes.
\<close>

definition failed_result :: "string \<Rightarrow> string \<Rightarrow> pyval" where
  "failed_result message tb =
     PDict [(KStr ''status'', PStr ''failed''), (KStr ''error'', PStr message),
            (KStr ''traceback'', PStr tb)]"

fun settle :: "bool \<Rightarrow> reply \<Rightarrow> pyval outcome" where
  "settle awaited (Returns v) = Return v"
| "settle awaited (Throws (Inr message) tb) = Return (failed_result message tb)"
| "settle awaited (Throws (Inl e) tb) = Raise e"
| "settle awaited (Stops tb) =
     (if awaited then Return (failed_result ''coroutine raised StopIteration'' tb) else Hang)"
| "settle awaited Aborts = Raise BaseException"

text \<open>\<^verbatim>\<open>await _invoke()\<close> with no time limit.\<close>

fun finish :: "bool \<Rightarrow> invocation \<Rightarrow> pyval outcome" where
  "finish awaited (After d r) = settle awaited r"
| "finish awaited Never = Hang"

text \<open>
  The number of seconds \<^verbatim>\<open>asyncio.wait_for\<close> is given. A value that is not a number
  makes it raise \<^verbatim>\<open>TypeError\<close> (at \<^verbatim>\<open>timeout <= 0\<close>), and an integer too large for a float
  \<^verbatim>\<open>OverflowError\<close> (at \<^verbatim>\<open>loop.time() + delay\<close>), both before \<^verbatim>\<open>_invoke\<close> starts.
\<close>

fun seconds :: "pyval \<Rightarrow> pyexc + int" where
  "seconds (PInt i) = (if 2 ^ 1024 - 2 ^ 970 \<le> i then Inl OverflowError else Inr i)"
| "seconds (PBool b) = Inr (if b then 1 else 0)"
| "seconds PNone = Inl TypeError"
| "seconds (PStr s) = Inl TypeError"
| "seconds (PList xs) = Inl TypeError"
| "seconds (PDict d) = Inl TypeError"

text \<open>
  \<^verbatim>\<open>asyncio.wait_for(_invoke(), t)\<close> for \<open>t > 0\<close>: the answer when it comes in time or
  cannot be cut off, \<^verbatim>\<open>TimeoutError\<close> otherwise.
\<close>

definition wait_for :: "int \<Rightarrow> bool \<Rightarrow> bool \<Rightarrow> invocation \<Rightarrow> pyval outcome" where
  "wait_for t awaited cuttable i =
     (case i of
        Never \<Rightarrow> if cuttable then Raise TimeoutError else Hang
      | After d r \<Rightarrow>
          if d < of_int t \<or> \<not> cuttable then
            (case settle awaited r of
               Hang \<Rightarrow> if cuttable then Raise TimeoutError else Hang
             | out \<Rightarrow> out)
          else Raise TimeoutError)"

text \<open>
  The \<^verbatim>\<open>if timeout:\<close> of \<^verbatim>\<open>_call_agent\<close>. With a timeout that is not positive,
  \<^verbatim>\<open>wait_for\<close> cancels \<^verbatim>\<open>_invoke\<close> before it starts, so the agent is not called.
\<close>

definition await_invocation :: "agent_obj \<Rightarrow> pydict \<Rightarrow> pyval \<Rightarrow> world \<Rightarrow> pyval outcome \<times> world" where
  "await_invocation a p timeout w =
     (if truthy timeout then
        (case seconds timeout of
           Inl e \<Rightarrow> (Raise e, w)
         | Inr t \<Rightarrow>
             if t \<le> 0 then (Return timed_out, w)
             else
               (case invoke a p w of
                  ((awaited, gives, i), w') \<Rightarrow>
                    (case wait_for t awaited (\<not> awaited \<or> gives) i of
                       Raise TimeoutError \<Rightarrow> (Return timed_out, w')
                     | out \<Rightarrow> (out, w'))))
      else
        (case invoke a p w of
           ((awaited, gives, i), w') \<Rightarrow> (finish awaited i, w')))"

text \<open>
  \<^verbatim>\<open>_call_agent\<close>. Agents are registered under strings, so another hashable name is
  not found; a list or a dict cannot be looked up at all.
\<close>

definition call_agent ::
  "(string \<rightharpoonup> agent_obj) \<Rightarrow> pyval \<Rightarrow> pydict \<Rightarrow> pyval \<Rightarrow> world \<Rightarrow> pyval outcome \<times> world" where
  "call_agent ags agent_name p timeout w =
     (case agent_name of
        PStr s \<Rightarrow>
          (case ags s of
             None \<Rightarrow> (Return (not_registered s), w)
           | Some a \<Rightarrow> await_invocation a p timeout w)
      | PNone \<Rightarrow> (Return (not_registered ''None''), w)
      | PBool b \<Rightarrow> (Return (not_registered (if b then ''True'' else ''False'')), w)
      | PInt i \<Rightarrow> (Return (not_registered (str_of_int i)), w)
      | PList xs \<Rightarrow> (Raise TypeError, w)
      | PDict d \<Rightarrow> (Raise TypeError, w))"

section \<open>Running one step\<close>

text \<open>
  One pass through the body of the \<^verbatim>\<open>while\<close> loop of \<^verbatim>\<open>_run_step\<close>, for the attempt
  number already incremented. The pass ends the step with its outcome, or fails and
  leaves the agent's result as \<^verbatim>\<open>last_err\<close>, or raises, or never finishes.

  The log line after the call reads \<^verbatim>\<open>result.get('status', 'unknown')\<close> before anything
  has tested that the result is a dict: on any other value this raises
  \<^verbatim>\<open>AttributeError\<close>, after the history entry was appended. So the
  \<^verbatim>\<open>isinstance(result, dict)\<close> tests further down only ever see a dict.

  The backoff delay \<^verbatim>\<open>0.5 * (2 ** (attempt - 1))\<close> is a power of two, which a float
  holds exactly up to attempt 1024; from attempt 1025 on the integer \<^verbatim>\<open>2 ** (attempt - 1)\<close>
  is too large for a float and the product raises \<^verbatim>\<open>OverflowError\<close>.
\<close>

datatype pass = Succeeded pydict | Failed pyval | Raised pyexc | Hung

definition delay :: "int \<Rightarrow> rat" where
  "delay n = (1 / 2) * 2 ^ nat (n - 1)"

definition backoff :: "int \<Rightarrow> pyexc + rat" where
  "backoff n = (if 1024 \<le> n - 1 then Inl OverflowError else Inr (delay n))"

definition attempt_pass ::
  "(string \<rightharpoonup> agent_obj) \<Rightarrow> pydict \<Rightarrow> pyval \<Rightarrow> pyval \<Rightarrow> pyval \<Rightarrow> int \<Rightarrow> world \<Rightarrow> pass \<times> world" where
  "attempt_pass ags step nm agent_name timeout n w =
     (let w1 = add_log w ''info'' (Starting nm agent_name n) in
      case resolve_input step (job w1) of
        Inl e \<Rightarrow> (Raised e, w1)
      | Inr resolved_payload \<Rightarrow>
          (case call_agent ags agent_name resolved_payload timeout w1 of
             (Raise e, w2) \<Rightarrow> (Raised e, w2)
           | (Hang, w2) \<Rightarrow> (Hung, w2)
           | (Return res, w2) \<Rightarrow>
               (let w3 = add_history w2
                           \<lparr>e_name = nm, e_agent = agent_name, e_attempt = n, e_result = res\<rparr> in
                case res of
                  PDict d \<Rightarrow>
                    (let w4 = add_log w3 ''info''
                                (Finished nm n (dict_get_default d ''status'' (PStr ''unknown''))) in
                     if dict_get d ''status'' = PStr ''success'' then
                       (Succeeded [(KStr ''status'', PStr ''success''),
                                   (KStr ''data'', dict_get_default d ''data'' res)], w4)
                     else
                       (let w5 = add_log w4 ''warning'' (AttemptFailed nm n (dict_get d ''error''))
                        in case backoff n of
                             Inl e \<Rightarrow> (Raised e, w5)
                           | Inr secs \<Rightarrow> (Failed res, sleep w5 secs)))
                | _ \<Rightarrow> (Raised AttributeError, w3))))"

function attempt_loop ::
  "(string \<rightharpoonup> agent_obj) \<Rightarrow> pydict \<Rightarrow> pyval \<Rightarrow> pyval \<Rightarrow> pyval \<Rightarrow> int \<Rightarrow> int \<Rightarrow> pyval \<Rightarrow> world
     \<Rightarrow> pydict outcome \<times> world" where
  "attempt_loop ags step nm agent_name timeout retries n last_err w =
     (if n < retries then
        (case attempt_pass ags step nm agent_name timeout (n + 1) w of
           (Succeeded r, w') \<Rightarrow> (Return r, w')
         | (Failed res, w') \<Rightarrow> attempt_loop ags step nm agent_name timeout retries (n + 1) res w'
         | (Raised e, w') \<Rightarrow> (Raise e, w')
         | (Hung, w') \<Rightarrow> (Hang, w'))
      else (Return [(KStr ''status'', PStr ''failed''), (KStr ''error'', last_err)], w))"
  by pat_completeness auto
termination
  by (relation "measure (\<lambda>(ags, step, nm, agent_name, timeout, retries, n, last_err, w). nat (retries - n))")
    auto

declare attempt_loop.simps [simp del]

text \<open>\<^verbatim>\<open>x.get(k)\<close> on a value that need not be a dict.\<close>

definition py_get :: "pyval \<Rightarrow> string \<Rightarrow> pyexc + pyval" where
  "py_get x k = (case x of PDict d \<Rightarrow> Inr (dict_get d k) | _ \<Rightarrow> Inl AttributeError)"

definition step_name :: "nat \<Rightarrow> pydict \<Rightarrow> pyval" where
  "step_name step_idx d = py_or (dict_get d ''name'') (PStr (''step_'' @ str_of_nat step_idx))"

definition run_step ::
  "(string \<rightharpoonup> agent_obj) \<Rightarrow> nat \<Rightarrow> pyval \<Rightarrow> world \<Rightarrow> pydict outcome \<times> world" where
  "run_step ags step_idx step w =
     (case step of
        PDict d \<Rightarrow>
          (let nm = step_name step_idx d;
               agent_name = dict_get d ''agent''
           in case py_int (dict_get_default d ''retry'' (PInt 1)) of
                Inl e \<Rightarrow> (Raise e, w)
              | Inr retries \<Rightarrow>
                  attempt_loop ags d nm agent_name (dict_get d ''timeout'') retries 0 PNone w)
      | _ \<Rightarrow> (Raise AttributeError, w))"

section \<open>Running a workflow\<close>

text \<open>What \<^verbatim>\<open>for ... in x\<close> iterates over.\<close>

fun py_iter :: "pyval \<Rightarrow> pyexc + pyval list" where
  "py_iter (PList xs) = Inr xs"
| "py_iter (PStr s) = Inr (map (\<lambda>c. PStr [c]) s)"
| "py_iter (PDict d) = Inr (map (\<lambda>kv. val_of_key (fst kv)) d)"
| "py_iter PNone = Inl TypeError"
| "py_iter (PBool b) = Inl TypeError"
| "py_iter (PInt i) = Inl TypeError"

text \<open>
  The \<^verbatim>\<open>for idx, step in enumerate(steps)\<close> loop of \<^verbatim>\<open>_execute_workflow\<close> from index
  \<open>idx\<close> on, and the three statements after it.
\<close>

fun run_steps :: "(string \<rightharpoonup> agent_obj) \<Rightarrow> nat \<Rightarrow> pyval list \<Rightarrow> world \<Rightarrow> unit outcome \<times> world" where
  "run_steps ags idx [] w =
     (Return (), add_log (set_status w ''finished'') ''info'' WorkflowCompleted)"
| "run_steps ags idx (step # rest) w =
     (case run_step ags idx step w of
        (Raise e, w') \<Rightarrow> (Raise e, w')
      | (Hang, w') \<Rightarrow> (Hang, w')
      | (Return step_resp, w') \<Rightarrow>
          (let w1 = add_result w'
                      (PDict [(KStr ''status'', dict_get step_resp ''status''),
                              (KStr ''data'', dict_get step_resp ''data'')])
           in if dict_get step_resp ''status'' \<noteq> PStr ''success'' then
                (case py_get step ''name'' of
                   Inl e \<Rightarrow> (Raise e, set_status w1 ''failed'')
                 | Inr nm \<Rightarrow>
                     (Return (), add_log (set_status w1 ''failed'') ''error'' (WorkflowFailed idx nm)))
              else run_steps ags (Suc idx) rest w1))"

definition execute_job :: "(string \<rightharpoonup> agent_obj) \<Rightarrow> world \<Rightarrow> unit outcome \<times> world" where
  "execute_job ags w =
     (case py_iter (dict_get_default (payload (job w)) ''steps'' (PList [])) of
        Inl e \<Rightarrow> (Raise e, w)
      | Inr steps \<Rightarrow> run_steps ags 0 steps w)"

text \<open>
  The orchestrator object: the registered agents and the in-memory job store. The job
  that \<^verbatim>\<open>start_workflow\<close> builds and stores, and \<^verbatim>\<open>_execute_workflow\<close>: the job dict
  fetched from the store is changed in place, so the store sees every change, also when
  the coroutine raises or never finishes. The lock only guards the store and is left
  out; one job is followed, from a world with no sleeps and no agent calls yet, and the
  sleeps performed are returned with the outcome.
\<close>

record orchestrator =
  agents :: "string \<rightharpoonup> agent_obj"
  jobs :: "string \<rightharpoonup> job"

definition new_job :: "string \<Rightarrow> pydict \<Rightarrow> job" where
  "new_job jid p =
     \<lparr>job_id = jid, status = ''running'', payload = p, logs = [], agent_history = [], result = []\<rparr>"

definition submit :: "orchestrator \<Rightarrow> string \<Rightarrow> pydict \<Rightarrow> orchestrator" where
  "submit orch jid p = orch\<lparr>jobs := (jobs orch)(jid \<mapsto> new_job jid p)\<rparr>"

definition execute_workflow :: "orchestrator \<Rightarrow> string \<Rightarrow> unit outcome \<times> orchestrator \<times> rat list" where
  "execute_workflow orch jid =
     (case jobs orch jid of
        None \<Rightarrow> (Return (), orch, [])
      | Some j \<Rightarrow>
          (case execute_job (agents orch) \<lparr>job = j, sleeps = [], calls = 0\<rparr> of
             (r, w) \<Rightarrow> (r, orch\<lparr>jobs := (jobs orch)(jid \<mapsto> job w)\<rparr>, sleeps w)))"

section \<open>Vocabulary of the statements\<close>

text \<open>
  The payload of a step can be built from its \<^verbatim>\<open>input\<close>: the entry is absent, falsy, a
  mapping, or a sequence of key-value pairs.
\<close>

definition input_ok :: "pydict \<Rightarrow> bool" where
  "input_ok d = (case py_dict (py_or (dict_get d ''input'') (PDict [])) of Inl e \<Rightarrow> False | Inr base \<Rightarrow> True)"

text \<open>
  Every call of the step's agent through \<^verbatim>\<open>_call_agent\<close>, with the step's timeout,
  whatever the payload and the moment, returns a dict whose status is (is not)
  \<^verbatim>\<open>"success"\<close>.
\<close>

definition always_succeeds :: "(string \<rightharpoonup> agent_obj) \<Rightarrow> pydict \<Rightarrow> bool" where
  "always_succeeds ags d =
     (input_ok d \<and>
      (\<forall>p w. \<exists>r. fst (call_agent ags (dict_get d ''agent'') p (dict_get d ''timeout'') w) = Return (PDict r)
                 \<and> dict_get r ''status'' = PStr ''success''))"

definition always_fails :: "(string \<rightharpoonup> agent_obj) \<Rightarrow> pydict \<Rightarrow> bool" where
  "always_fails ags d =
     (input_ok d \<and>
      (\<forall>p w. \<exists>r. fst (call_agent ags (dict_get d ''agent'') p (dict_get d ''timeout'') w) = Return (PDict r)
                 \<and> dict_get r ''status'' \<noteq> PStr ''success''))"

text \<open>
  The number of attempts a step allows, \<^verbatim>\<open>int(step.get("retry", 1))\<close>, and a step
  that allows at least one attempt and whose agent always succeeds.
\<close>

definition step_retries :: "pydict \<Rightarrow> pyexc + int" where
  "step_retries d = py_int (dict_get_default d ''retry'' (PInt 1))"

definition reliable :: "(string \<rightharpoonup> agent_obj) \<Rightarrow> pydict \<Rightarrow> bool" where
  "reliable ags d = (always_succeeds ags d \<and> (\<exists>k. step_retries d = Inr k \<and> 1 \<le> k))"



section \<open>Example agents, steps and jobs\<close>

definition ex_success :: pyval where
  "ex_success = PDict [(KStr ''status'', PStr ''success''), (KStr ''data'', PDict [(KStr ''html'', PStr ''hi'')])]"

definition ex_failure :: pyval where
  "ex_failure = PDict [(KStr ''status'', PStr ''failed''), (KStr ''error'', PStr ''boom'')]"

definition plain_agent :: "invocation \<Rightarrow> agent_obj" where
  "plain_agent i =
     \<lparr>arun = None,
      run = Some \<lparr>is_coroutine = False, behave = (\<lambda>n p. i), gives_way = (\<lambda>n p. True)\<rparr>\<rparr>"

definition async_agent :: "bool \<Rightarrow> invocation \<Rightarrow> agent_obj" where
  "async_agent g i =
     \<lparr>arun = Some \<lparr>is_coroutine = True, behave = (\<lambda>n p. i), gives_way = (\<lambda>n p. g)\<rparr>,
      run = None\<rparr>"

definition ex_agents :: "string \<rightharpoonup> agent_obj" where
  "ex_agents =
     [''good'' \<mapsto> plain_agent (After 1 (Returns ex_success)),
      ''bad'' \<mapsto> plain_agent (After 1 (Returns ex_failure)),
      ''text'' \<mapsto> plain_agent (After 1 (Returns (PStr ''oops''))),
      ''slow'' \<mapsto> plain_agent (After 5 (Returns ex_success)),
      ''stuck'' \<mapsto> plain_agent Never,
      ''thrower'' \<mapsto> plain_agent (After 1 (Throws (Inr ''boom'') ''Traceback'')),
      ''quitter'' \<mapsto> plain_agent (After 1 Aborts),
      ''stopper'' \<mapsto> plain_agent (After 1 (Stops ''Traceback'')),
      ''halter'' \<mapsto> async_agent True (After 1 (Stops ''Traceback'')),
      ''mute'' \<mapsto> plain_agent (After 1 (Throws (Inl ValueError) ''Traceback'')),
      ''blocker'' \<mapsto> async_agent False (After 5 (Returns ex_success)),
      ''polite'' \<mapsto> async_agent True (After 5 (Returns ex_success))]"

definition ex_step :: "string \<Rightarrow> int \<Rightarrow> pydict" where
  "ex_step a r = [(KStr ''agent'', PStr a), (KStr ''retry'', PInt r)]"

definition ex_world :: world where
  "ex_world = \<lparr>job = new_job ''job-1'' [], sleeps = [], calls = 0\<rparr>"

definition ex_job_done :: job where
  "ex_job_done =
     \<lparr>job_id = ''job-2'', status = ''running'', payload = [], logs = [], agent_history = [],
        result = [PDict [(KStr ''status'', PStr ''success''),
                          (KStr ''data'', PDict [(KStr ''f'', PStr ''x'')])]]\<rparr>"

definition ex_orch :: orchestrator where
  "ex_orch = \<lparr>agents = ex_agents, jobs = Map.empty\<rparr>"

section \<open>How the state changes\<close>

lemma invoke_world:
  "invoke a p w = (x, w') \<Longrightarrow> job w' = job w \<and> sleeps w' = sleeps w \<and> calls w \<le> calls w'"
  by (auto simp: invoke_def split: option.splits)

lemma await_invocation_world:
  "await_invocation a p t w = (r, w') \<Longrightarrow> job w' = job w \<and> sleeps w' = sleeps w \<and> calls w \<le> calls w'"
  by (auto simp: await_invocation_def
      split: if_splits sum.splits prod.splits outcome.splits pyexc.splits dest: invoke_world)

lemma call_agent_world:
  "call_agent ags an p t w = (r, w') \<Longrightarrow> job w' = job w \<and> sleeps w' = sleeps w \<and> calls w \<le> calls w'"
  by (auto simp: call_agent_def split: pyval.splits option.splits dest: await_invocation_world)

lemma resolve_input_ok:
  "input_ok d \<Longrightarrow> \<exists>pl. resolve_input d j = Inr pl"
  by (auto simp: input_ok_def resolve_input_def Let_def split: sum.splits option.splits)

lemma backoff_Inr: "backoff n = Inr x \<longleftrightarrow> n \<le> 1024 \<and> x = delay n"
  by (auto simp: backoff_def)

lemma attempt_pass_Failed:
  assumes "attempt_pass ags d nm an t n w = (Failed res, w')"
  shows "agent_history (job w') = agent_history (job w) @ [\<lparr>e_name = nm, e_agent = an, e_attempt = n, e_result = res\<rparr>]"
    and "sleeps w' = sleeps w @ [delay n]"
    and "result (job w') = result (job w)"
    and "status (job w') = status (job w)"
    and "calls w \<le> calls w'"
    and "length (logs (job w')) = length (logs (job w)) + 3"
    and "n \<le> 1024"
  using assms
  by (auto simp: attempt_pass_def Let_def add_log_def add_history_def sleep_def backoff_Inr
      split: sum.splits prod.splits outcome.splits pyval.splits if_splits dest!: call_agent_world)


lemma attempt_pass_Succeeded:
  assumes "attempt_pass ags d nm an t n w = (Succeeded r, w')"
  shows "\<exists>res. agent_history (job w') = agent_history (job w) @ [\<lparr>e_name = nm, e_agent = an, e_attempt = n, e_result = res\<rparr>]"
    and "sleeps w' = sleeps w"
    and "result (job w') = result (job w)"
    and "status (job w') = status (job w)"
    and "dict_get r ''status'' = PStr ''success''"
  using assms
  by (auto simp: attempt_pass_def Let_def add_log_def add_history_def sleep_def dict_get_def
      split: sum.splits prod.splits outcome.splits pyval.splits if_splits dest!: call_agent_world)

lemma attempt_pass_history_le:
  "length (agent_history (job (snd (attempt_pass ags d nm an t n w)))) \<le> Suc (length (agent_history (job w)))"
proof -
  let ?w1 = "add_log w ''info'' (Starting nm an n)"
  have h1: "agent_history (job ?w1) = agent_history (job w)" by (simp add: add_log_def)
  show ?thesis
  proof (cases "resolve_input d (job ?w1)")
    case (Inl e)
    then show ?thesis using h1 by (simp add: attempt_pass_def Let_def)
  next
    case (Inr pl)
    obtain r w2 where ca: "call_agent ags an pl t ?w1 = (r, w2)" by (cases "call_agent ags an pl t ?w1")
    from call_agent_world [OF ca] have "job w2 = job ?w1" by simp
    with ca Inr h1 show ?thesis
      by (auto simp: attempt_pass_def Let_def add_log_def add_history_def sleep_def
          split: outcome.splits pyval.splits sum.splits)
  qed
qed

lemma attempt_pass_always_fails:
  assumes "always_fails ags d" and "n \<le> 1024"
  shows "\<exists>r w'. attempt_pass ags d nm (dict_get d ''agent'') (dict_get d ''timeout'') n w = (Failed (PDict r), w')
           \<and> dict_get r ''status'' \<noteq> PStr ''success''"
proof -
  let ?w1 = "add_log w ''info'' (Starting nm (dict_get d ''agent'') n)"
  from assms have "input_ok d" by (simp add: always_fails_def)
  from resolve_input_ok [OF this] obtain pl where pl: "resolve_input d (job ?w1) = Inr pl"
    by blast
  from assms obtain r where r: "fst (call_agent ags (dict_get d ''agent'') pl (dict_get d ''timeout'') ?w1) = Return (PDict r)"
    and ns: "dict_get r ''status'' \<noteq> PStr ''success''"
    unfolding always_fails_def by blast
  obtain w2 where "call_agent ags (dict_get d ''agent'') pl (dict_get d ''timeout'') ?w1 = (Return (PDict r), w2)"
    using r by (cases "call_agent ags (dict_get d ''agent'') pl (dict_get d ''timeout'') ?w1") auto
  with pl ns assms(2) show ?thesis
    by (simp add: attempt_pass_def Let_def backoff_def)
qed

text \<open>From attempt 1025 on, a failed attempt ends in the overflow of the delay.\<close>

lemma attempt_pass_overflows:
  assumes "always_fails ags d" and "1025 \<le> n"
  shows "\<exists>w'. attempt_pass ags d nm (dict_get d ''agent'') (dict_get d ''timeout'') n w = (Raised OverflowError, w')
           \<and> map e_attempt (agent_history (job w')) = map e_attempt (agent_history (job w)) @ [n]
           \<and> sleeps w' = sleeps w"
proof -
  let ?w1 = "add_log w ''info'' (Starting nm (dict_get d ''agent'') n)"
  from assms have "input_ok d" by (simp add: always_fails_def)
  from resolve_input_ok [OF this] obtain pl where pl: "resolve_input d (job ?w1) = Inr pl"
    by blast
  from assms obtain r where r: "fst (call_agent ags (dict_get d ''agent'') pl (dict_get d ''timeout'') ?w1) = Return (PDict r)"
    and ns: "dict_get r ''status'' \<noteq> PStr ''success''"
    unfolding always_fails_def by blast
  obtain w2 where ca: "call_agent ags (dict_get d ''agent'') pl (dict_get d ''timeout'') ?w1 = (Return (PDict r), w2)"
    using r by (cases "call_agent ags (dict_get d ''agent'') pl (dict_get d ''timeout'') ?w1") auto
  from call_agent_world [OF ca] have "job w2 = job ?w1" "sleeps w2 = sleeps ?w1" by simp_all
  with ca pl ns assms(2) show ?thesis
    by (simp add: attempt_pass_def Let_def backoff_def add_log_def add_history_def)
qed

lemma attempt_pass_always_succeeds:
  assumes "always_succeeds ags d"
  shows "\<exists>r w'. attempt_pass ags d nm (dict_get d ''agent'') (dict_get d ''timeout'') n w = (Succeeded r, w')"
proof -
  let ?w1 = "add_log w ''info'' (Starting nm (dict_get d ''agent'') n)"
  from assms have "input_ok d" by (simp add: always_succeeds_def)
  from resolve_input_ok [OF this] obtain pl where pl: "resolve_input d (job ?w1) = Inr pl"
    by blast
  from assms obtain r where r: "fst (call_agent ags (dict_get d ''agent'') pl (dict_get d ''timeout'') ?w1) = Return (PDict r)"
    and ns: "dict_get r ''status'' = PStr ''success''"
    unfolding always_succeeds_def by blast
  obtain w2 where "call_agent ags (dict_get d ''agent'') pl (dict_get d ''timeout'') ?w1 = (Return (PDict r), w2)"
    using r by (cases "call_agent ags (dict_get d ''agent'') pl (dict_get d ''timeout'') ?w1") auto
  with pl ns show ?thesis
    by (simp add: attempt_pass_def Let_def)
qed

lemma upto_step: "n < k \<Longrightarrow> [n + 1..k] = (n + 1) # [n + 1 + 1..k]"
  by (simp add: upto_rec1)

text \<open>
  The loop when every pass up to attempt 1024 fails and \<open>retries \<le> 1024\<close>: it runs
  the attempts \<open>n + 1, ..., retries\<close>, sleeps after each, and returns the result of the
  last pass as the error.
\<close>

lemma attempt_loop_fails:
  "(\<forall>m v. m \<le> 1024 \<longrightarrow> (\<exists>res v'. attempt_pass ags d nm an t m v = (Failed res, v') \<and> Q res)) \<Longrightarrow>
   k \<le> 1024 \<Longrightarrow>
   \<exists>w'. attempt_loop ags d nm an t k n le w =
          (Return [(KStr ''status'', PStr ''failed''),
                   (KStr ''error'', if n < k then e_result (last (agent_history (job w'))) else le)], w')
      \<and> map (\<lambda>e. (e_name e, e_attempt e)) (agent_history (job w')) =
          map (\<lambda>e. (e_name e, e_attempt e)) (agent_history (job w)) @ map (\<lambda>m. (nm, m)) [n + 1..k]
      \<and> (n < k \<longrightarrow> Q (e_result (last (agent_history (job w')))))
      \<and> (n < k \<longrightarrow> (\<exists>v. attempt_pass ags d nm an t k v = (Failed (e_result (last (agent_history (job w')))), w')
                      \<and> map e_attempt (agent_history (job v)) =
                          map e_attempt (agent_history (job w)) @ [n + 1..k - 1]))
      \<and> sleeps w' = sleeps w @ map delay [n + 1..k]
      \<and> result (job w') = result (job w)
      \<and> status (job w') = status (job w)"
proof (induction ags d nm an t k n le w rule: attempt_loop.induct)
  case (1 ags step nm agent_name timeout retries n last_err w)
  show ?case
  proof (cases "n < retries")
    case False
    then show ?thesis by (simp add: attempt_loop.simps)
  next
    case True
    with "1.prems"(2) have "n + 1 \<le> 1024" by simp
    with "1.prems"(1) obtain res w1 where
      P: "attempt_pass ags step nm agent_name timeout (n + 1) w = (Failed res, w1)"
      and Q: "Q res" by blast
    note F = attempt_pass_Failed [OF P]
    from "1.IH" [OF True P [symmetric] refl "1.prems"]
    obtain w' where
      L: "attempt_loop ags step nm agent_name timeout retries (n + 1) res w1 =
            (Return [(KStr ''status'', PStr ''failed''),
                     (KStr ''error'', if n + 1 < retries then e_result (last (agent_history (job w'))) else res)], w')"
      and H: "map (\<lambda>e. (e_name e, e_attempt e)) (agent_history (job w')) =
          map (\<lambda>e. (e_name e, e_attempt e)) (agent_history (job w1)) @ map (\<lambda>m. (nm, m)) [n + 1 + 1..retries]"
      and QQ: "n + 1 < retries \<longrightarrow> Q (e_result (last (agent_history (job w'))))"
      and VV: "n + 1 < retries \<longrightarrow>
                 (\<exists>v. attempt_pass ags step nm agent_name timeout retries v =
                         (Failed (e_result (last (agent_history (job w')))), w')
                      \<and> map e_attempt (agent_history (job v)) =
                          map e_attempt (agent_history (job w1)) @ [n + 1 + 1..retries - 1])"
      and S: "sleeps w' = sleeps w1 @ map delay [n + 1 + 1..retries]"
      and R: "result (job w') = result (job w1)"
      and T: "status (job w') = status (job w1)"
      by blast
    have stop: "w' = w1" if a: "\<not> n + 1 < retries"
    proof -
      from a L have "attempt_loop ags step nm agent_name timeout retries (n + 1) res w1 =
            (Return [(KStr ''status'', PStr ''failed''), (KStr ''error'', res)], w')" by simp
      moreover have "attempt_loop ags step nm agent_name timeout retries (n + 1) res w1 =
            (Return [(KStr ''status'', PStr ''failed''), (KStr ''error'', res)], w1)"
        using a by (simp add: attempt_loop.simps)
      ultimately show "w' = w1" by simp
    qed
    have last_eq: "e_result (last (agent_history (job w'))) = res" if a: "\<not> n + 1 < retries"
      using stop [OF a] F(1) by simp
    have unfold: "attempt_loop ags step nm agent_name timeout retries n last_err w =
            attempt_loop ags step nm agent_name timeout retries (n + 1) res w1"
      using True P by (subst attempt_loop.simps) simp
    have err: "(if n + 1 < retries then e_result (last (agent_history (job w'))) else res) =
               e_result (last (agent_history (job w')))"
      using last_eq by simp
    have q: "Q (e_result (last (agent_history (job w'))))"
      using QQ Q last_eq by (cases "n + 1 < retries") auto
    have hw1: "map e_attempt (agent_history (job w1)) = map e_attempt (agent_history (job w)) @ [n + 1]"
      using F(1) by simp
    have v: "\<exists>v. attempt_pass ags step nm agent_name timeout retries v =
                         (Failed (e_result (last (agent_history (job w')))), w')
                      \<and> map e_attempt (agent_history (job v)) =
                          map e_attempt (agent_history (job w)) @ [n + 1..retries - 1]"
    proof (cases "n + 1 < retries")
      case False
      with True have eq: "retries = n + 1" by simp
      from False have "w' = w1" by (rule stop)
      with P last_eq [OF False] eq have
        "attempt_pass ags step nm agent_name timeout retries w =
           (Failed (e_result (last (agent_history (job w')))), w')" by simp
      moreover have "[n + 1..retries - 1] = []" using eq by simp
      ultimately show ?thesis by (intro exI [of _ w]) simp
    next
      case True
      with VV obtain v where
        a: "attempt_pass ags step nm agent_name timeout retries v =
              (Failed (e_result (last (agent_history (job w')))), w')"
        and b: "map e_attempt (agent_history (job v)) =
                  map e_attempt (agent_history (job w1)) @ [n + 1 + 1..retries - 1]"
        by blast
      have "[n + 1..retries - 1] = (n + 1) # [n + 1 + 1..retries - 1]"
        using True by (simp add: upto_rec1)
      with a b hw1 show ?thesis by (intro exI [of _ v]) simp
    qed
    from unfold L err have
      "attempt_loop ags step nm agent_name timeout retries n last_err w =
         (Return [(KStr ''status'', PStr ''failed''),
                  (KStr ''error'', e_result (last (agent_history (job w'))))], w')"
      by simp
    moreover have "map (\<lambda>e. (e_name e, e_attempt e)) (agent_history (job w')) =
          map (\<lambda>e. (e_name e, e_attempt e)) (agent_history (job w)) @ map (\<lambda>m. (nm, m)) [n + 1..retries]"
      using H F(1) True by (simp add: upto_step)
    moreover have "sleeps w' = sleeps w @ map delay [n + 1..retries]"
      using S F(2) True by (simp add: upto_step)
    moreover have "result (job w') = result (job w)" using R F(3) by simp
    moreover have "status (job w') = status (job w)" using T F(4) by simp
    ultimately show ?thesis using True q v by auto
  qed
qed

text \<open>
  The loop when \<open>retries > 1024\<close> and every pass fails: attempt 1025 raises
  \<^verbatim>\<open>OverflowError\<close>, after 1024 sleeps.
\<close>

lemma attempt_loop_overflows:
  "(\<forall>m v. m \<le> 1024 \<longrightarrow> (\<exists>res v'. attempt_pass ags d nm an t m v = (Failed res, v'))) \<Longrightarrow>
   (\<forall>v. \<exists>v'. attempt_pass ags d nm an t 1025 v = (Raised OverflowError, v')
            \<and> map e_attempt (agent_history (job v')) = map e_attempt (agent_history (job v)) @ [1025]
            \<and> sleeps v' = sleeps v) \<Longrightarrow>
   n \<le> 1024 \<Longrightarrow> 1024 < k \<Longrightarrow>
   \<exists>w'. attempt_loop ags d nm an t k n le w = (Raise OverflowError, w')
      \<and> map e_attempt (agent_history (job w')) = map e_attempt (agent_history (job w)) @ [n + 1..1025]
      \<and> sleeps w' = sleeps w @ map delay [n + 1..1024]"
proof (induction ags d nm an t k n le w rule: attempt_loop.induct)
  case (1 ags step nm agent_name timeout retries n last_err w)
  from "1.prems"(3,4) have lt: "n < retries" by simp
  show ?case
  proof (cases "n = 1024")
    case True
    from "1.prems"(2) obtain v' where
      P: "attempt_pass ags step nm agent_name timeout 1025 w = (Raised OverflowError, v')"
      and h: "map e_attempt (agent_history (job v')) = map e_attempt (agent_history (job w)) @ [1025]"
      and s: "sleeps v' = sleeps w"
      by blast
    have "attempt_loop ags step nm agent_name timeout retries n last_err w = (Raise OverflowError, v')"
      using lt P True by (subst attempt_loop.simps) simp
    with h s True show ?thesis by simp
  next
    case False
    with "1.prems"(3) have n1: "n + 1 \<le> 1024" by simp
    with "1.prems"(1) obtain res w1 where
      P: "attempt_pass ags step nm agent_name timeout (n + 1) w = (Failed res, w1)" by blast
    note F = attempt_pass_Failed [OF P]
    from "1.IH" [OF lt P [symmetric] refl "1.prems"(1,2) n1 "1.prems"(4)]
    obtain w' where
      L: "attempt_loop ags step nm agent_name timeout retries (n + 1) res w1 = (Raise OverflowError, w')"
      and H: "map e_attempt (agent_history (job w')) = map e_attempt (agent_history (job w1)) @ [n + 1 + 1..1025]"
      and S: "sleeps w' = sleeps w1 @ map delay [n + 1 + 1..1024]"
      by blast
    have "attempt_loop ags step nm agent_name timeout retries n last_err w = (Raise OverflowError, w')"
      using lt P L by (subst attempt_loop.simps) simp
    moreover have "map e_attempt (agent_history (job w')) = map e_attempt (agent_history (job w)) @ [n + 1..1025]"
      using H F(1) n1 by (simp add: upto_rec1 [of "n + 1" 1025])
    moreover have "sleeps w' = sleeps w @ map delay [n + 1..1024]"
      using S F(2) n1 by (simp add: upto_rec1 [of "n + 1" 1024])
    ultimately show ?thesis by blast
  qed
qed

lemma attempt_loop_history_le:
  "length (agent_history (job (snd (attempt_loop ags d nm an t k n le w)))) \<le>
     length (agent_history (job w)) + nat (k - n)"
proof (induction ags d nm an t k n le w rule: attempt_loop.induct)
  case (1 ags step nm agent_name timeout retries n last_err w)
  show ?case
  proof (cases "n < retries")
    case False
    then show ?thesis by (simp add: attempt_loop.simps)
  next
    case True
    obtain ps w1 where P: "attempt_pass ags step nm agent_name timeout (n + 1) w = (ps, w1)"
      by (cases "attempt_pass ags step nm agent_name timeout (n + 1) w")
    have one: "length (agent_history (job w1)) \<le> Suc (length (agent_history (job w)))"
      using attempt_pass_history_le [of ags step nm agent_name timeout "n + 1" w] P by simp
    have pos: "nat (retries - n) = Suc (nat (retries - (n + 1)))" using True by simp
    show ?thesis
    proof (cases ps)
      case (Failed res)
      from "1.IH" [OF True P [symmetric, unfolded Failed] refl]
      have "length (agent_history (job (snd (attempt_loop ags step nm agent_name timeout retries (n + 1) res w1))))
              \<le> length (agent_history (job w1)) + nat (retries - (n + 1))" .
      moreover have "attempt_loop ags step nm agent_name timeout retries n last_err w =
          attempt_loop ags step nm agent_name timeout retries (n + 1) res w1"
        using True P Failed by (subst attempt_loop.simps) simp
      ultimately show ?thesis using one pos by simp
    next
      case (Succeeded r)
      have "attempt_loop ags step nm agent_name timeout retries n last_err w = (Return r, w1)"
        using True P Succeeded by (subst attempt_loop.simps) simp
      then show ?thesis using one pos by simp
    next
      case (Raised e)
      have "attempt_loop ags step nm agent_name timeout retries n last_err w = (Raise e, w1)"
        using True P Raised by (subst attempt_loop.simps) simp
      then show ?thesis using one pos by simp
    next
      case Hung
      have "attempt_loop ags step nm agent_name timeout retries n last_err w = (Hang, w1)"
        using True P Hung by (subst attempt_loop.simps) simp
      then show ?thesis using one pos by simp
    qed
  qed
qed

lemma attempt_pass_calls:
  assumes "\<forall>p v. calls (snd (call_agent ags an p t v)) = calls v"
  shows "calls (snd (attempt_pass ags d nm an t n w)) = calls w"
proof -
  let ?w1 = "add_log w ''info'' (Starting nm an n)"
  have c1: "calls ?w1 = calls w" by (simp add: add_log_def)
  show ?thesis
  proof (cases "resolve_input d (job ?w1)")
    case (Inl e)
    then show ?thesis using c1 by (simp add: attempt_pass_def Let_def)
  next
    case (Inr pl)
    obtain r w2 where ca: "call_agent ags an pl t ?w1 = (r, w2)" by (cases "call_agent ags an pl t ?w1")
    with assms have "calls w2 = calls ?w1" by (metis snd_conv)
    with ca Inr c1 show ?thesis
      by (auto simp: attempt_pass_def Let_def add_log_def add_history_def sleep_def
          split: outcome.splits pyval.splits sum.splits)
  qed
qed

lemma attempt_loop_calls:
  "(\<forall>p v. calls (snd (call_agent ags an p t v)) = calls v) \<Longrightarrow>
   calls (snd (attempt_loop ags d nm an t k n le w)) = calls w"
proof (induction ags d nm an t k n le w rule: attempt_loop.induct)
  case (1 ags step nm agent_name timeout retries n last_err w)
  show ?case
  proof (cases "n < retries")
    case False
    then show ?thesis by (simp add: attempt_loop.simps)
  next
    case True
    obtain ps w1 where P: "attempt_pass ags step nm agent_name timeout (n + 1) w = (ps, w1)"
      by (cases "attempt_pass ags step nm agent_name timeout (n + 1) w")
    have c: "calls w1 = calls w"
      using attempt_pass_calls [OF "1.prems", of step nm "n + 1" w] P by simp
    show ?thesis
    proof (cases ps)
      case (Failed res)
      with "1.IH" [OF True P [symmetric] _ "1.prems"] P True c show ?thesis
        by (subst attempt_loop.simps) simp
    qed (use P True c in \<open>subst attempt_loop.simps, simp\<close>)+
  qed
qed


lemma not_registered_status: "not_registered s = PDict r \<Longrightarrow> dict_get r ''status'' \<noteq> PStr ''success''"
  by (auto simp: not_registered_def dict_get_def)

lemma run_step_always_fails:
  assumes "\<forall>m v. m \<le> 1024 \<longrightarrow>
             (\<exists>res v'. attempt_pass ags d (step_name idx d) (dict_get d ''agent'') (dict_get d ''timeout'') m v
                       = (Failed res, v') \<and> Q res)"
    and "py_int (dict_get_default d ''retry'' (PInt 1)) = Inr k"
    and "k \<le> 1024"
  shows "\<exists>w'. run_step ags idx (PDict d) w =
          (Return [(KStr ''status'', PStr ''failed''),
                   (KStr ''error'', if 0 < k then e_result (last (agent_history (job w'))) else PNone)], w')
      \<and> map (\<lambda>e. (e_name e, e_attempt e)) (agent_history (job w')) =
          map (\<lambda>e. (e_name e, e_attempt e)) (agent_history (job w)) @ map (\<lambda>m. (step_name idx d, m)) [1..k]
      \<and> (0 < k \<longrightarrow> Q (e_result (last (agent_history (job w')))))
      \<and> (0 < k \<longrightarrow>
            (\<exists>v. attempt_pass ags d (step_name idx d) (dict_get d ''agent'') (dict_get d ''timeout'') k v =
                    (Failed (e_result (last (agent_history (job w')))), w')
                 \<and> map e_attempt (agent_history (job v)) = map e_attempt (agent_history (job w)) @ [1..k - 1]))
      \<and> sleeps w' = sleeps w @ map delay [1..k]
      \<and> result (job w') = result (job w)
      \<and> status (job w') = status (job w)"
  using attempt_loop_fails [OF assms(1,3), of 0 PNone w] assms(2)
  by (simp add: run_step_def Let_def)

lemma always_fails_pass:
  assumes "always_fails ags d"
  shows "\<forall>m v. m \<le> 1024 \<longrightarrow>
           (\<exists>res v'. attempt_pass ags d nm (dict_get d ''agent'') (dict_get d ''timeout'') m v = (Failed res, v')
              \<and> (\<exists>r. res = PDict r \<and> dict_get r ''status'' \<noteq> PStr ''success''))"
  using attempt_pass_always_fails [OF assms] by blast

text \<open>Beyond 1024 permitted attempts, a step whose agent always fails ends in the overflow.\<close>

lemma run_step_overflows:
  assumes f: "always_fails ags d" and k: "py_int (dict_get_default d ''retry'' (PInt 1)) = Inr k"
    and gt: "1024 < k"
  shows "\<exists>w'. run_step ags idx (PDict d) w = (Raise OverflowError, w')
             \<and> map e_attempt (agent_history (job w')) = map e_attempt (agent_history (job w)) @ [1..1025]
             \<and> sleeps w' = sleeps w @ map delay [1..1024]"
proof -
  let ?nm = "step_name idx d"
  have p1: "\<forall>m v. m \<le> 1024 \<longrightarrow>
      (\<exists>res v'. attempt_pass ags d ?nm (dict_get d ''agent'') (dict_get d ''timeout'') m v = (Failed res, v'))"
    using always_fails_pass [OF f, of ?nm] by blast
  have p2: "\<forall>v. \<exists>v'. attempt_pass ags d ?nm (dict_get d ''agent'') (dict_get d ''timeout'') 1025 v
                        = (Raised OverflowError, v')
          \<and> map e_attempt (agent_history (job v')) = map e_attempt (agent_history (job v)) @ [1025]
          \<and> sleeps v' = sleeps v"
    using attempt_pass_overflows [OF f, of 1025 ?nm] by simp
  have z: "(0::int) \<le> 1024" by simp
  from attempt_loop_overflows [OF p1 p2 z gt, of PNone w]
  obtain w' where
    r: "attempt_loop ags d ?nm (dict_get d ''agent'') (dict_get d ''timeout'') k 0 PNone w
          = (Raise OverflowError, w')"
    and h: "map e_attempt (agent_history (job w')) = map e_attempt (agent_history (job w)) @ [0 + 1..1025]"
    and s: "sleeps w' = sleeps w @ map delay [0 + 1..1024]"
    by blast
  have "run_step ags idx (PDict d) w = (Raise OverflowError, w')"
    using r k by (simp add: run_step_def Let_def)
  with h s show ?thesis by simp
qed



lemma ex_good_always_succeeds: "always_succeeds ex_agents (ex_step ''good'' k)"
  by (simp add: always_succeeds_def input_ok_def ex_step_def dict_get_def py_or_def call_agent_def
      ex_agents_def plain_agent_def await_invocation_def invoke_def dispatch_def ex_success_def)




lemma split_on_first:
  assumes "split_on c s = a # r" and "r \<noteq> []"
  shows "take (Suc (length a)) s = a @ [c]"
proof (cases "dropWhile (\<lambda>x. x \<noteq> c) s")
  case Nil
  with assms show ?thesis by (simp add: split_on.simps [of c s])
next
  case (Cons x rest)
  with assms have a: "a = takeWhile (\<lambda>x. x \<noteq> c) s"
    by (simp add: split_on.simps [of c s])
  have "x = hd (dropWhile (\<lambda>x. x \<noteq> c) s)" using Cons by simp
  then have x: "x = c" using hd_dropWhile [of "\<lambda>x. x \<noteq> c" s] Cons by auto
  have "s = takeWhile (\<lambda>x. x \<noteq> c) s @ dropWhile (\<lambda>x. x \<noteq> c) s" by simp
  with Cons a x have "s = a @ c # rest" by simp
  then show ?thesis by simp
qed

lemma walk_PNone: "walk PNone fs = PNone"
  by (induction fs) auto

lemma walk_empty_dict: "fs \<noteq> [] \<Longrightarrow> walk (PDict []) fs = PNone"
  by (cases fs) (auto simp: dict_get_def walk_PNone)

lemma resolve_path_shape:
  assumes "split_on CHR ''.'' s = ''previous'' # ''steps'' # istr # ''data'' # fs"
    and "fs \<noteq> []"
  shows "resolve_path (PStr s) j =
     (case int_of_str istr of
        Inl e \<Rightarrow> Inl e
      | Inr idx \<Rightarrow>
          (case (if idx < int (length (result j)) then py_index (result j) idx else Inr PNone) of
             Inl e \<Rightarrow> Inl e
           | Inr prev_result \<Rightarrow>
               if truthy prev_result then
                 (case prev_result of
                    PDict d \<Rightarrow> Inr (Some (walk (py_or (dict_get d ''data'') (PDict [])) fs))
                  | _ \<Rightarrow> Inl AttributeError)
               else Inr None))"
proof -
  have "take (Suc (length ''previous'')) s = ''previous'' @ [CHR ''.'']"
    using split_on_first [OF assms(1)] by simp
  then have st: "startswith s ''previous.''" by (simp add: startswith_def)
  have len: "length (split_on CHR ''.'' s) \<ge> 5"
    using assms by (cases fs) auto
  show ?thesis
    using st len assms(1) by (simp add: resolve_path_def Let_def split: sum.split)
qed

lemma path_truthy:
  assumes "split_on CHR ''.'' s = ''previous'' # r" shows "truthy (PStr s)"
  using assms by (cases s) (auto simp: split_on.simps [of _ "[]"])

lemma run_step_always_succeeds:
  assumes "always_succeeds ags d" and "step_retries d = Inr k" and "1 \<le> k"
  shows "\<exists>r w'. run_step ags idx (PDict d) w = (Return r, w')
      \<and> dict_get r ''status'' = PStr ''success''
      \<and> map (\<lambda>e. (e_name e, e_attempt e)) (agent_history (job w')) =
          map (\<lambda>e. (e_name e, e_attempt e)) (agent_history (job w)) @ [(step_name idx d, 1)]
      \<and> sleeps w' = sleeps w
      \<and> result (job w') = result (job w)
      \<and> status (job w') = status (job w)"
proof -
  from attempt_pass_always_succeeds [OF assms(1), of "step_name idx d" 1 w]
  obtain r w' where
    P: "attempt_pass ags d (step_name idx d) (dict_get d ''agent'') (dict_get d ''timeout'') 1 w = (Succeeded r, w')"
    by blast
  note S = attempt_pass_Succeeded [OF P]
  have "run_step ags idx (PDict d) w = (Return r, w')"
    using assms(2,3) P
    by (simp add: run_step_def step_retries_def Let_def attempt_loop.simps [of _ _ _ _ _ _ 0])
  with S show ?thesis by auto
qed

lemma run_steps_all_succeed:
  "\<forall>d\<in>set ds. reliable ags d \<Longrightarrow>
   \<exists>w'. run_steps ags i (map PDict ds) w = (Return (), w')
      \<and> status (job w') = ''finished''
      \<and> length (result (job w')) = length (result (job w)) + length ds
      \<and> map (\<lambda>e. (e_name e, e_attempt e)) (agent_history (job w')) =
          map (\<lambda>e. (e_name e, e_attempt e)) (agent_history (job w)) @
          map (\<lambda>(n, d). (step_name n d, 1)) (enumerate i ds)
      \<and> sleeps w' = sleeps w"
proof (induction ds arbitrary: i w)
  case Nil
  show ?case by (simp add: add_log_def set_status_def)
next
  case (Cons d ds)
  from Cons.prems obtain k where s: "always_succeeds ags d" and k: "step_retries d = Inr k" "1 \<le> k"
    by (auto simp: reliable_def)
  from run_step_always_succeeds [OF s k, of i w]
  obtain r w1 where
    R: "run_step ags i (PDict d) w = (Return r, w1)"
    and st: "dict_get r ''status'' = PStr ''success''"
    and h: "map (\<lambda>e. (e_name e, e_attempt e)) (agent_history (job w1)) =
          map (\<lambda>e. (e_name e, e_attempt e)) (agent_history (job w)) @ [(step_name i d, 1)]"
    and sl: "sleeps w1 = sleeps w"
    and rs: "result (job w1) = result (job w)"
    by blast
  let ?w2 = "add_result w1 (PDict [(KStr ''status'', dict_get r ''status''), (KStr ''data'', dict_get r ''data'')])"
  from Cons.prems have "\<forall>d\<in>set ds. reliable ags d" by simp
  from Cons.IH [OF this, of "Suc i" ?w2]
  obtain w' where
    A: "run_steps ags (Suc i) (map PDict ds) ?w2 = (Return (), w')"
    and B: "status (job w') = ''finished''"
    and C: "length (result (job w')) = length (result (job ?w2)) + length ds"
    and D: "map (\<lambda>e. (e_name e, e_attempt e)) (agent_history (job w')) =
          map (\<lambda>e. (e_name e, e_attempt e)) (agent_history (job ?w2)) @
          map (\<lambda>(n, d). (step_name n d, 1)) (enumerate (Suc i) ds)"
    and E: "sleeps w' = sleeps ?w2"
    by blast
  have "run_steps ags i (map PDict (d # ds)) w = (Return (), w')"
    using R st A by (simp add: Let_def)
  moreover have "length (result (job w')) = length (result (job w)) + length (d # ds)"
    using C rs by (simp add: add_result_def)
  moreover have "map (\<lambda>e. (e_name e, e_attempt e)) (agent_history (job w')) =
          map (\<lambda>e. (e_name e, e_attempt e)) (agent_history (job w)) @
          map (\<lambda>(n, d). (step_name n d, 1)) (enumerate i (d # ds))"
    using D h by (simp add: add_result_def)
  moreover have "sleeps w' = sleeps w" using E sl by (simp add: add_result_def)
  ultimately show ?case using B by blast
qed

lemma execute_workflow_submit:
  "execute_workflow (submit orch jid p) jid =
     (case execute_job (agents orch) \<lparr>job = new_job jid p, sleeps = [], calls = 0\<rparr> of
        (r, w) \<Rightarrow> (r, orch\<lparr>jobs := (jobs orch)(jid \<mapsto> job w)\<rparr>, sleeps w))"
  by (simp add: execute_workflow_def submit_def split: prod.splits)

lemma ex_good_reliable: "1 \<le> k \<Longrightarrow> reliable ex_agents (ex_step ''good'' k)"
  using ex_good_always_succeeds [of k]
  by (simp add: reliable_def step_retries_def ex_step_def dict_get_default_def)


section \<open>The claims\<close>

text \<open>
  Claim C1. Take a workflow whose steps are the dicts \<open>ds\<close>, each allowing at least
  one attempt, with an \<^verbatim>\<open>input\<close> that builds a payload and an agent whose every
  invocation returns a dict with status \<^verbatim>\<open>"success"\<close>. Submitted as a fresh job and
  executed, it ends with the job's status \<^verbatim>\<open>"finished"\<close>, a result list as long as
  \<open>ds\<close>, and an agent history with exactly one entry per step, in step order, each
  with attempt number 1; no backoff sleep was performed.
\<close>
theorem all_steps_succeed_job_finished:
  assumes "dict_get_default p ''steps'' (PList []) = PList (map PDict ds)"
    and "\<forall>d\<in>set ds. reliable (agents orch) d"
  shows "\<exists>orch' j. execute_workflow (submit orch jid p) jid = (Return (), orch', [])
      \<and> jobs orch' jid = Some j
      \<and> status j = ''finished''
      \<and> length (result j) = length ds
      \<and> map (\<lambda>e. (e_name e, e_attempt e)) (agent_history j) =
          map (\<lambda>(n, d). (step_name n d, 1)) (enumerate 0 ds)"
proof -
  let ?w = "\<lparr>job = new_job jid p, sleeps = [], calls = 0\<rparr>"
  from run_steps_all_succeed [OF assms(2), of 0 ?w]
  obtain w' where
    A: "run_steps (agents orch) 0 (map PDict ds) ?w = (Return (), w')"
    and B: "status (job w') = ''finished''"
    and C: "length (result (job w')) = length (result (job ?w)) + length ds"
    and D: "map (\<lambda>e. (e_name e, e_attempt e)) (agent_history (job w')) =
          map (\<lambda>e. (e_name e, e_attempt e)) (agent_history (job ?w)) @
          map (\<lambda>(n, d). (step_name n d, 1)) (enumerate 0 ds)"
    and E: "sleeps w' = sleeps ?w"
    by blast
  have "execute_job (agents orch) ?w = (Return (), w')"
    using assms(1) A by (simp add: execute_job_def new_job_def)
  then have "execute_workflow (submit orch jid p) jid =
      (Return (), orch\<lparr>jobs := (jobs orch)(jid \<mapsto> job w')\<rparr>, [])"
    using E by (simp add: execute_workflow_submit)
  moreover have "jobs (orch\<lparr>jobs := (jobs orch)(jid \<mapsto> job w')\<rparr>) jid = Some (job w')" by simp
  moreover have "length (result (job w')) = length ds" using C by (simp add: new_job_def)
  moreover have "map (\<lambda>e. (e_name e, e_attempt e)) (agent_history (job w')) =
          map (\<lambda>(n, d). (step_name n d, 1)) (enumerate 0 ds)" using D by (simp add: new_job_def)
  ultimately show ?thesis using B by blast
qed

theorem all_steps_succeed_job_finished_witness:
  "\<exists>orch' j. execute_workflow
        (submit ex_orch ''job-1'' [(KStr ''steps'', PList [PDict (ex_step ''good'' 1), PDict (ex_step ''good'' 3)])])
        ''job-1'' = (Return (), orch', [])
      \<and> jobs orch' ''job-1'' = Some j
      \<and> status j = ''finished''
      \<and> length (result j) = 2
      \<and> map (\<lambda>e. (e_name e, e_attempt e)) (agent_history j) = [(PStr ''step_0'', 1), (PStr ''step_1'', 1)]"
proof -
  let ?ds = "[ex_step ''good'' 1, ex_step ''good'' 3]"
  let ?p = "[(KStr ''steps'', PList [PDict (ex_step ''good'' 1), PDict (ex_step ''good'' 3)])]"
  have a: "dict_get_default ?p ''steps'' (PList []) = PList (map PDict ?ds)"
    by (simp add: dict_get_default_def)
  have b: "\<forall>d\<in>set ?ds. reliable (agents ex_orch) d"
    using ex_good_reliable [of 1] ex_good_reliable [of 3] by (simp add: ex_orch_def)
  have n: "map (\<lambda>(n, d). (step_name n d, 1::int)) (enumerate 0 ?ds) = [(PStr ''step_0'', 1), (PStr ''step_1'', 1)]"
    by code_simp
  have l: "length ?ds = 2" by simp
  from all_steps_succeed_job_finished [of ?p ?ds ex_orch "''job-1''", OF a b]
  show ?thesis unfolding n l .
qed







text \<open>
  Claim C4 fails on the code. An agent that returns the string \<^verbatim>\<open>"oops"\<close> makes
  \<^verbatim>\<open>_run_step\<close> raise \<^verbatim>\<open>AttributeError\<close> at the first attempt, at the log line that reads
  \<^verbatim>\<open>result.get('status', 'unknown')\<close>: the history entry is there, no failure is logged,
  no further attempt is made, and \<^verbatim>\<open>_execute_workflow\<close> ends by that exception with the
  job still \<^verbatim>\<open>"running"\<close> and no result entry.
\<close>
theorem non_dict_result_raises:
  "run_step ex_agents 0 (PDict (ex_step ''text'' 3)) ex_world =
     (Raise AttributeError,
      \<lparr>job = \<lparr>job_id = ''job-1'', status = ''running'', payload = [],
               logs = [\<lparr>level = ''info'', msg = Starting (PStr ''step_0'') (PStr ''text'') 1\<rparr>],
               agent_history = [\<lparr>e_name = PStr ''step_0'', e_agent = PStr ''text'', e_attempt = 1,
                                 e_result = PStr ''oops''\<rparr>],
               result = []\<rparr>,
        sleeps = [], calls = 1\<rparr>)
   \<and> (case execute_workflow
            (submit \<lparr>agents = ex_agents, jobs = Map.empty\<rparr> ''job-1''
               [(KStr ''steps'', PList [PDict (ex_step ''text'' 3)])]) ''job-1'' of
        (r, orch, sl) \<Rightarrow>
          r = Raise AttributeError \<and> map_option status (jobs orch ''job-1'') = Some ''running''
          \<and> map_option result (jobs orch ''job-1'') = Some [])"
  by code_simp

text \<open>
  Claim C5, as the spec states it, fails where the index is in range and a field
  lookup fails: the payload then does have the key \<^verbatim>\<open>_from_previous\<close>, with the value
  \<^verbatim>\<open>None\<close> (here step 0 recorded \<^verbatim>\<open>{"f": "x"}\<close>, which has no field \<^verbatim>\<open>g\<close> and no
  mapping under \<^verbatim>\<open>f\<close>).
\<close>
theorem unresolvable_path_counterexample:
  "resolve_input [(KStr ''input_path'', PStr ''previous.steps.0.data.g'')] ex_job_done =
     Inr [(KStr ''_from_previous'', PNone)]
   \<and> resolve_input [(KStr ''input_path'', PStr ''previous.steps.0.data.f.g'')] ex_job_done =
     Inr [(KStr ''_from_previous'', PNone)]"
  by code_simp

text \<open>
  Claim C5, amended. For a step whose \<^verbatim>\<open>input\<close> builds the payload \<open>base\<close> and whose
  \<^verbatim>\<open>input_path\<close> has the form \<^verbatim>\<open>previous.steps.<idx>.data.<fields>\<close> with an integer
  \<^verbatim>\<open>idx\<close>, input resolution never raises, and: when \<^verbatim>\<open>idx\<close> is out of the range of the
  job's result list it returns \<open>base\<close> as it is; when \<^verbatim>\<open>idx\<close> is in range and the
  referenced step's data is absent or the walk through the fields fails, it returns
  \<open>base\<close> with \<^verbatim>\<open>_from_previous\<close> set to \<^verbatim>\<open>None\<close>.
\<close>
theorem unresolvable_path_degrades:
  assumes "py_dict (py_or (dict_get step ''input'') (PDict [])) = Inr base"
    and "dict_get step ''input_path'' = PStr s"
    and "split_on CHR ''.'' s = ''previous'' # ''steps'' # istr # ''data'' # fs"
    and "fs \<noteq> []"
    and "int_of_str istr = Inr idx"
  shows "(int (length (result j)) \<le> idx \<or> idx < - int (length (result j)) \<longrightarrow>
            resolve_input step j = Inr base)
       \<and> (0 \<le> idx \<and> idx < int (length (result j)) \<and> result j ! nat idx = PDict r \<and> r \<noteq> []
            \<and> (\<not> truthy (dict_get r ''data'')
                \<or> walk (dict_get r ''data'') fs = PNone) \<longrightarrow>
            resolve_input step j = Inr (dict_set base (KStr ''_from_previous'') PNone))"
proof -
  note rp = resolve_path_shape [OF assms(3,4), of j]
  have tr: "truthy (PStr s)" using path_truthy [OF assms(3)] .
  have out: "resolve_input step j = Inr base"
    if "int (length (result j)) \<le> idx \<or> idx < - int (length (result j))"
  proof -
    from that have "resolve_path (PStr s) j = Inr None \<or> resolve_path (PStr s) j = Inl IndexError"
      using assms(5) by (auto simp: rp py_index_def Let_def)
    then show ?thesis
      using assms(1,2) tr by (auto simp: resolve_input_def Let_def)
  qed
  have inr: "resolve_input step j = Inr (dict_set base (KStr ''_from_previous'') PNone)"
    if a: "0 \<le> idx" "idx < int (length (result j))" "result j ! nat idx = PDict r" "r \<noteq> []"
      and b: "\<not> truthy (dict_get r ''data'') \<or> walk (dict_get r ''data'') fs = PNone"
  proof -
    have w: "walk (py_or (dict_get r ''data'') (PDict [])) fs = PNone"
      using b assms(4) by (auto simp: py_or_def walk_empty_dict)
    have "resolve_path (PStr s) j = Inr (Some PNone)"
      using a assms(5) w by (simp add: rp py_index_def Let_def)
    then show ?thesis
      using assms(1,2) tr by (simp add: resolve_input_def Let_def)
  qed
  from out inr show ?thesis by blast
qed

theorem unresolvable_path_degrades_witness:
  "resolve_input [(KStr ''input'', PDict [(KStr ''q'', PInt 1)]), (KStr ''input_path'', PStr ''previous.steps.1.data.f'')]
      ex_job_done = Inr [(KStr ''q'', PInt 1)]
   \<and> resolve_input [(KStr ''input'', PDict [(KStr ''q'', PInt 1)]), (KStr ''input_path'', PStr ''previous.steps.0.data.g'')]
      ex_job_done = Inr [(KStr ''q'', PInt 1), (KStr ''_from_previous'', PNone)]"
proof -
  let ?s1 = "[(KStr ''input'', PDict [(KStr ''q'', PInt 1)]), (KStr ''input_path'', PStr ''previous.steps.1.data.f'')]"
  let ?s0 = "[(KStr ''input'', PDict [(KStr ''q'', PInt 1)]), (KStr ''input_path'', PStr ''previous.steps.0.data.g'')]"
  have b1: "py_dict (py_or (dict_get ?s1 ''input'') (PDict [])) = Inr [(KStr ''q'', PInt 1)]"
    and b0: "py_dict (py_or (dict_get ?s0 ''input'') (PDict [])) = Inr [(KStr ''q'', PInt 1)]"
    by (simp_all add: dict_get_def py_or_def)
  have p1: "dict_get ?s1 ''input_path'' = PStr ''previous.steps.1.data.f''"
    and p0: "dict_get ?s0 ''input_path'' = PStr ''previous.steps.0.data.g''"
    by (simp_all add: dict_get_def)
  have sp1: "split_on CHR ''.'' ''previous.steps.1.data.f'' = ''previous'' # ''steps'' # ''1'' # ''data'' # [''f'']"
    and sp0: "split_on CHR ''.'' ''previous.steps.0.data.g'' = ''previous'' # ''steps'' # ''0'' # ''data'' # [''g'']"
    by code_simp+
  have ne: "[''f''] \<noteq> []" "[''g''] \<noteq> []" by simp_all
  have i1: "int_of_str ''1'' = Inr 1" and i0: "int_of_str ''0'' = Inr 0"
    by code_simp+
  note T1 = unresolvable_path_degrades [OF b1 p1 sp1 ne(1) i1, of ex_job_done, THEN conjunct1, rule_format]
  note T0 = unresolvable_path_degrades [OF b0 p0 sp0 ne(2) i0, of ex_job_done
      "[(KStr ''status'', PStr ''success''), (KStr ''data'', PDict [(KStr ''f'', PStr ''x'')])]",
      THEN conjunct2, rule_format]
  have h1: "int (length (result ex_job_done)) \<le> 1 \<or> 1 < - int (length (result ex_job_done))"
    by (simp add: ex_job_done_def)
  have h0: "0 \<le> (0::int) \<and> 0 < int (length (result ex_job_done))
      \<and> result ex_job_done ! nat 0 = PDict [(KStr ''status'', PStr ''success''), (KStr ''data'', PDict [(KStr ''f'', PStr ''x'')])]
      \<and> [(KStr ''status'', PStr ''success''), (KStr ''data'', PDict [(KStr ''f'', PStr ''x'')])] \<noteq> []
      \<and> (\<not> truthy (dict_get [(KStr ''status'', PStr ''success''), (KStr ''data'', PDict [(KStr ''f'', PStr ''x'')])] ''data'')
          \<or> walk (dict_get [(KStr ''status'', PStr ''success''), (KStr ''data'', PDict [(KStr ''f'', PStr ''x'')])] ''data'') [''g''] = PNone)"
    by (simp add: ex_job_done_def dict_get_def)
  from T1 [OF h1] T0 [OF h0] show ?thesis
    by (simp add: dict_set_def)
qed

text \<open>
  Claim C6 fails on the code. The index \<^verbatim>\<open>-1\<close> is accepted by \<^verbatim>\<open>int\<close> and passes the
  test \<^verbatim>\<open>idx < len(...)\<close>, so \<^verbatim>\<open>previous.steps.-1.data.f\<close> reads the last recorded
  result and projects its field \<^verbatim>\<open>f\<close> into the payload.
\<close>
theorem negative_index_projects:
  "resolve_input [(KStr ''input_path'', PStr ''previous.steps.-1.data.f'')] ex_job_done =
     Inr [(KStr ''_from_previous'', PStr ''x'')]"
  by code_simp







text \<open>
  Claim C9. For a name that is not registered, \<^verbatim>\<open>_call_agent\<close> returns
  \<^verbatim>\<open>{"status": "failed", "error": "agent '<name>' not registered"}\<close> and changes nothing
  (the job, the sleeps and the count of agent calls are as before; the registry is only
  read). A step that names such an agent makes no agent call and never more than \<^verbatim>\<open>retry\<close>
  attempts: with \<^verbatim>\<open>retry = k\<close>, \<open>k \<le> 1024\<close>, it ends, without raising, in the failed outcome
  that carries this result, after exactly \<open>k\<close> attempts (none when \<open>k\<close> is not positive);
  with \<open>k > 1024\<close> it ends after 1025 attempts, in the \<^verbatim>\<open>OverflowError\<close> of the backoff
  delay.
\<close>
theorem unregistered_agent_fails_quietly:
  assumes "ags nm = None"
  shows "call_agent ags (PStr nm) p timeout w =
           (Return (PDict [(KStr ''status'', PStr ''failed''),
                           (KStr ''error'', PStr (''agent '' @ [CHR 0x27] @ nm @ [CHR 0x27] @ '' not registered''))]), w)
       \<and> (dict_get d ''agent'' = PStr nm \<and> input_ok d \<and> py_int (dict_get_default d ''retry'' (PInt 1)) = Inr k
            \<longrightarrow> (\<exists>w'. run_step ags idx (PDict d) w =
                        (if k \<le> 1024
                         then Return [(KStr ''status'', PStr ''failed''),
                                      (KStr ''error'', if 0 < k then not_registered nm else PNone)]
                         else Raise OverflowError, w')
                     \<and> length (agent_history (job w')) = length (agent_history (job w)) + nat (min k 1025)
                     \<and> length (agent_history (job w')) \<le> length (agent_history (job w)) + nat k
                     \<and> calls w' = calls w))"
proof -
  have ca: "call_agent ags (PStr nm) q t v = (Return (not_registered nm), v)" for q t v
    using assms by (simp add: call_agent_def)
  have first: "call_agent ags (PStr nm) p timeout w =
           (Return (PDict [(KStr ''status'', PStr ''failed''),
                           (KStr ''error'', PStr (''agent '' @ [CHR 0x27] @ nm @ [CHR 0x27] @ '' not registered''))]), w)"
    using ca by (simp add: not_registered_def)
  have second: "\<exists>w'. run_step ags idx (PDict d) w =
                        (if k \<le> 1024
                         then Return [(KStr ''status'', PStr ''failed''),
                                      (KStr ''error'', if 0 < k then not_registered nm else PNone)]
                         else Raise OverflowError, w')
                     \<and> length (agent_history (job w')) = length (agent_history (job w)) + nat (min k 1025)
                     \<and> length (agent_history (job w')) \<le> length (agent_history (job w)) + nat k
                     \<and> calls w' = calls w"
    if ag: "dict_get d ''agent'' = PStr nm" and ok: "input_ok d"
      and k: "py_int (dict_get_default d ''retry'' (PInt 1)) = Inr k"
  proof -
    have cl: "calls (snd (run_step ags idx (PDict d) w)) = calls w"
      using attempt_loop_calls [of ags "PStr nm" "dict_get d ''timeout''" d "step_name idx d" k 0 PNone w] ca ag k
      by (simp add: run_step_def Let_def)
    show ?thesis
    proof (cases "k \<le> 1024")
      case True
      have pass: "\<exists>res v'. attempt_pass ags d (step_name idx d) (dict_get d ''agent'') (dict_get d ''timeout'') m v
                         = (Failed res, v') \<and> res = not_registered nm" if m: "m \<le> 1024" for m v
      proof -
        from resolve_input_ok [OF ok]
        obtain pl where "resolve_input d (job (add_log v ''info'' (Starting (step_name idx d) (PStr nm) m))) = Inr pl"
          by blast
        then show ?thesis
          using ca ag m by (simp add: attempt_pass_def Let_def not_registered_def dict_get_def backoff_def)
      qed
      then have "\<forall>m v. m \<le> 1024 \<longrightarrow>
                   (\<exists>res v'. attempt_pass ags d (step_name idx d) (dict_get d ''agent'') (dict_get d ''timeout'') m v
                         = (Failed res, v') \<and> res = not_registered nm)" by blast
      from run_step_always_fails [OF this k True, of w]
      obtain w' where
        r: "run_step ags idx (PDict d) w =
            (Return [(KStr ''status'', PStr ''failed''),
                     (KStr ''error'', if 0 < k then e_result (last (agent_history (job w'))) else PNone)], w')"
        and h: "map (\<lambda>e. (e_name e, e_attempt e)) (agent_history (job w')) =
            map (\<lambda>e. (e_name e, e_attempt e)) (agent_history (job w)) @ map (\<lambda>m. (step_name idx d, m)) [1..k]"
        and q: "0 < k \<longrightarrow> e_result (last (agent_history (job w'))) = not_registered nm"
        by blast
      have "length (map (\<lambda>e. (e_name e, e_attempt e)) (agent_history (job w'))) =
            length (agent_history (job w)) + nat k"
        by (simp only: h) simp
      then have len: "length (agent_history (job w')) = length (agent_history (job w)) + nat k"
        by simp
      from cl r have "calls w' = calls w" by simp
      with r q len True show ?thesis by (auto simp: min_def)
    next
      case False
      then have gt: "1024 < k" by simp
      have af: "always_fails ags d"
        using ok ag ca not_registered_status [of nm]
        by (auto simp: always_fails_def not_registered_def dict_get_def)
      from run_step_overflows [OF af k gt, of idx w]
      obtain w' where
        r: "run_step ags idx (PDict d) w = (Raise OverflowError, w')"
        and h: "map e_attempt (agent_history (job w')) = map e_attempt (agent_history (job w)) @ [1..1025]"
        by blast
      have "length (map e_attempt (agent_history (job w'))) = length (agent_history (job w)) + 1025"
        by (simp only: h) simp
      then have len: "length (agent_history (job w')) = length (agent_history (job w)) + 1025"
        by simp
      from cl r have "calls w' = calls w" by simp
      with r len gt show ?thesis by (auto simp: min_def)
    qed
  qed
  from first second show ?thesis by blast
qed

theorem unregistered_agent_fails_quietly_witness:
  "call_agent ex_agents (PStr ''ghost'') [] PNone ex_world =
           (Return (PDict [(KStr ''status'', PStr ''failed''),
                           (KStr ''error'', PStr ''agent 'ghost' not registered'')]), ex_world)
   \<and> (\<exists>w'. run_step ex_agents 0 (PDict (ex_step ''ghost'' 3)) ex_world =
              (Return [(KStr ''status'', PStr ''failed''), (KStr ''error'', not_registered ''ghost'')], w')
            \<and> length (agent_history (job w')) = 3 \<and> calls w' = 0)
   \<and> (\<exists>w'. run_step ex_agents 0 (PDict (ex_step ''ghost'' 2000)) ex_world = (Raise OverflowError, w')
            \<and> length (agent_history (job w')) = 1025 \<and> calls w' = 0)"
proof -
  have a: "ex_agents ''ghost'' = None" by (simp add: ex_agents_def)
  have b: "dict_get (ex_step ''ghost'' k) ''agent'' = PStr ''ghost'' \<and> input_ok (ex_step ''ghost'' k)
      \<and> py_int (dict_get_default (ex_step ''ghost'' k) ''retry'' (PInt 1)) = Inr k" for k
    by (simp add: ex_step_def dict_get_def dict_get_default_def input_ok_def py_or_def)
  note T = unregistered_agent_fails_quietly
         [where ags = ex_agents and nm = "''ghost''" and p = "[]" and timeout = PNone and w = ex_world
            and idx = 0, OF a]
  from T [where d = "ex_step ''ghost'' 3" and k = 3] b [of 3]
  have one: "call_agent ex_agents (PStr ''ghost'') [] PNone ex_world =
           (Return (PDict [(KStr ''status'', PStr ''failed''),
                           (KStr ''error'', PStr ''agent 'ghost' not registered'')]), ex_world)
   \<and> (\<exists>w'. run_step ex_agents 0 (PDict (ex_step ''ghost'' 3)) ex_world =
              (Return [(KStr ''status'', PStr ''failed''), (KStr ''error'', not_registered ''ghost'')], w')
            \<and> length (agent_history (job w')) = 3 \<and> calls w' = 0)"
    by (auto simp: ex_world_def new_job_def)
  from T [where d = "ex_step ''ghost'' 2000" and k = 2000] b [of 2000]
  have two: "\<exists>w'. run_step ex_agents 0 (PDict (ex_step ''ghost'' 2000)) ex_world = (Raise OverflowError, w')
            \<and> length (agent_history (job w')) = 1025 \<and> calls w' = 0"
    by (auto simp: ex_world_def new_job_def)
  from one two show ?thesis by blast
qed

text \<open>
  Claim C10. A step whose \<^verbatim>\<open>retry\<close> converts to an integer \<open>k \<le> 0\<close> makes no attempt:
  \<^verbatim>\<open>_run_step\<close> returns \<^verbatim>\<open>{"status": "failed", "error": None}\<close> and leaves the world as
  it was (no agent call, no history entry, no log entry). In the workflow loop the job
  then gets the result entry \<^verbatim>\<open>{"status": "failed", "data": None}\<close>, the status
  \<^verbatim>\<open>"failed"\<close> and the error log of that step, and the steps after it are not run.
\<close>
theorem nonpositive_retry_makes_no_attempt:
  assumes "py_int (dict_get_default d ''retry'' (PInt 1)) = Inr k" and "k \<le> 0"
  shows "run_step ags idx (PDict d) w =
           (Return [(KStr ''status'', PStr ''failed''), (KStr ''error'', PNone)], w)
       \<and> run_steps ags idx (PDict d # rest) w =
           (Return (),
            add_log (set_status (add_result w (PDict [(KStr ''status'', PStr ''failed''), (KStr ''data'', PNone)]))
                       ''failed'')
              ''error'' (WorkflowFailed idx (dict_get d ''name'')))"
proof -
  have rs: "run_step ags idx (PDict d) w =
           (Return [(KStr ''status'', PStr ''failed''), (KStr ''error'', PNone)], w)"
    using assms by (simp add: run_step_def Let_def attempt_loop.simps)
  then show ?thesis
    by (simp add: dict_get_def py_get_def)
qed

theorem nonpositive_retry_makes_no_attempt_witness:
  "run_step ex_agents 0 (PDict (ex_step ''good'' 0)) ex_world =
     (Return [(KStr ''status'', PStr ''failed''), (KStr ''error'', PNone)], ex_world)
   \<and> status (job (snd (run_steps ex_agents 0 [PDict (ex_step ''good'' 0), PDict (ex_step ''good'' 1)] ex_world)))
       = ''failed''
   \<and> agent_history (job (snd (run_steps ex_agents 0 [PDict (ex_step ''good'' 0), PDict (ex_step ''good'' 1)] ex_world)))
       = []"
proof -
  have k: "py_int (dict_get_default (ex_step ''good'' 0) ''retry'' (PInt 1)) = Inr 0"
    by (simp add: ex_step_def dict_get_default_def)
  have le: "(0::int) \<le> 0" by simp
  note T = nonpositive_retry_makes_no_attempt
             [OF k le, of ex_agents 0 ex_world "[PDict (ex_step ''good'' 1)]"]
  from T have a: "run_step ex_agents 0 (PDict (ex_step ''good'' 0)) ex_world =
     (Return [(KStr ''status'', PStr ''failed''), (KStr ''error'', PNone)], ex_world)"
    by (rule conjunct1)
  note b = T [THEN conjunct2]
  show ?thesis
    unfolding a b
    by (simp add: add_log_def set_status_def add_result_def ex_world_def new_job_def)
qed

end
